theory Spec2Isabelle
  imports Main "HOL-Library.Sublist"
begin

section \<open>Parsed YAML values\<close>

text \<open>
  \<^verbatim>\<open>yaml.safe_load\<close> returns a tree of Python objects. The constructors below are
  the Python types the validator can meet: \<^verbatim>\<open>None\<close>, \<^verbatim>\<open>bool\<close>, \<^verbatim>\<open>int\<close>,
  \<^verbatim>\<open>str\<close>, \<^verbatim>\<open>list\<close> and \<^verbatim>\<open>dict\<close>. A dict is an association list in insertion
  order whose keys are strings and pairwise distinct. Floats, timestamps and binary
  scalars are left out, as are mapping keys that are not strings. A string is the list
  of its characters, each a code point from U+0000 to U+00FF; documents with characters
  beyond that range are left out.
\<close>

datatype yaml =
    YNull
  | YBool bool
  | YInt int
  | YStr string
  | YList "yaml list"
  | YMap "(string \<times> yaml) list"

text \<open>The exceptions of the Python runtime that the validator can run into.\<close>

datatype py_error = TypeError | AttributeError | IndexError | ValueError

definition bind_r :: "py_error + 'a \<Rightarrow> ('a \<Rightarrow> py_error + 'b) \<Rightarrow> py_error + 'b" where
  "bind_r r k = (case r of Inl e \<Rightarrow> Inl e | Inr x \<Rightarrow> k x)"

subsection \<open>Truth value, membership, lookup, iteration\<close>

text \<open>Python's \<^verbatim>\<open>bool(obj)\<close>, as used by \<^verbatim>\<open>if obj\<close> and \<^verbatim>\<open>if not obj\<close>.\<close>

fun truthy :: "yaml \<Rightarrow> bool" where
  "truthy YNull = False"
| "truthy (YBool b) = b"
| "truthy (YInt n) = (n \<noteq> 0)"
| "truthy (YStr s) = (s \<noteq> [])"
| "truthy (YList xs) = (xs \<noteq> [])"
| "truthy (YMap m) = (m \<noteq> [])"

text \<open>\<^verbatim>\<open>key in d\<close> and \<^verbatim>\<open>d.get(key)\<close> on a dict.\<close>

definition has_key :: "(string \<times> yaml) list \<Rightarrow> string \<Rightarrow> bool" where
  "has_key m k = (map_of m k \<noteq> None)"

definition dict_get :: "(string \<times> yaml) list \<Rightarrow> string \<Rightarrow> yaml" where
  "dict_get m k = (case map_of m k of None \<Rightarrow> YNull | Some v \<Rightarrow> v)"

text \<open>\<^verbatim>\<open>sub in s\<close> on two strings: \<^verbatim>\<open>sub\<close> occurs in \<^verbatim>\<open>s\<close> as a contiguous run.\<close>

fun occurs_in :: "string \<Rightarrow> string \<Rightarrow> bool" where
  "occurs_in sub [] = (sub = [])"
| "occurs_in sub (c # cs) = (prefix sub (c # cs) \<or> occurs_in sub cs)"

text \<open>
  \<^verbatim>\<open>field in obj\<close> for a string \<^verbatim>\<open>field\<close>: key membership on a dict, element
  membership on a list, substring test on a string, and \<^verbatim>\<open>TypeError\<close> on the
  objects that are not containers.
\<close>

fun py_contains :: "yaml \<Rightarrow> string \<Rightarrow> py_error + bool" where
  "py_contains (YMap m) field = Inr (has_key m field)"
| "py_contains (YList xs) field = Inr (YStr field \<in> set xs)"
| "py_contains (YStr s) field = Inr (occurs_in field s)"
| "py_contains YNull field = Inl TypeError"
| "py_contains (YBool b) field = Inl TypeError"
| "py_contains (YInt n) field = Inl TypeError"

text \<open>\<^verbatim>\<open>obj.get(key)\<close>: only a dict has the method.\<close>

fun py_get :: "yaml \<Rightarrow> string \<Rightarrow> py_error + yaml" where
  "py_get (YMap m) key = Inr (dict_get m key)"
| "py_get obj key = Inl AttributeError"

text \<open>\<^verbatim>\<open>obj.get(key, default)\<close>.\<close>

fun py_get_default :: "yaml \<Rightarrow> string \<Rightarrow> yaml \<Rightarrow> py_error + yaml" where
  "py_get_default (YMap m) key dflt =
     Inr (case map_of m key of None \<Rightarrow> dflt | Some v \<Rightarrow> v)"
| "py_get_default obj key dflt = Inl AttributeError"

text \<open>
  The items a \<^verbatim>\<open>for\<close> loop draws from an object: the elements of a list, the
  characters of a string, the keys of a dict; anything else is not iterable.
\<close>

fun py_iter :: "yaml \<Rightarrow> py_error + yaml list" where
  "py_iter (YList xs) = Inr xs"
| "py_iter (YStr s) = Inr (map (\<lambda>c. YStr [c]) s)"
| "py_iter (YMap m) = Inr (map (\<lambda>kv. YStr (fst kv)) m)"
| "py_iter YNull = Inl TypeError"
| "py_iter (YBool b) = Inl TypeError"
| "py_iter (YInt n) = Inl TypeError"

text \<open>\<^verbatim>\<open>xs[i]\<close> for an index that is not negative.\<close>

definition py_item :: "'a list \<Rightarrow> nat \<Rightarrow> py_error + 'a" where
  "py_item xs i = (if i < length xs then Inr (xs ! i) else Inl IndexError)"

subsection \<open>Strings: \<^verbatim>\<open>startswith\<close>, \<^verbatim>\<open>split\<close>, \<^verbatim>\<open>str\<close> and \<^verbatim>\<open>repr\<close>\<close>

definition startswith :: "string \<Rightarrow> string \<Rightarrow> bool" where
  "startswith s p = prefix p s"

text \<open>
  \<^verbatim>\<open>s.split(sep)\<close> cuts \<^verbatim>\<open>s\<close> at the occurrences of \<^verbatim>\<open>sep\<close>, found from left to
  right without overlap. \<^verbatim>\<open>split_on\<close> is the scan for a separator that is not empty;
  the empty separator raises \<^verbatim>\<open>ValueError\<close>.
\<close>

function split_on :: "string \<Rightarrow> string \<Rightarrow> string list" where
  "split_on sep [] = [[]]"
| "split_on sep (c # cs) =
     (if sep \<noteq> [] \<and> prefix sep (c # cs)
      then [] # split_on sep (drop (length sep) (c # cs))
      else (case split_on sep cs of
              [] \<Rightarrow> [[c]]
            | p # ps \<Rightarrow> (c # p) # ps))"
  by pat_completeness auto
termination
  by (relation "measure (\<lambda>(sep, s). length s)") auto

definition py_split :: "string \<Rightarrow> string \<Rightarrow> py_error + string list" where
  "py_split s sep = (if sep = [] then Inl ValueError else Inr (split_on sep s))"

text \<open>Decimal digits of a number, as \<^verbatim>\<open>str\<close> prints an \<^verbatim>\<open>int\<close>.\<close>

definition digit_char :: "nat \<Rightarrow> char" where
  "digit_char d = ''0123456789'' ! d"

function nat_str :: "nat \<Rightarrow> string" where
  "nat_str n = (if n < 10 then [digit_char n] else nat_str (n div 10) @ [digit_char (n mod 10)])"
  by pat_completeness auto
termination
  by (relation "measure id") auto

declare nat_str.simps [simp del]

definition int_str :: "int \<Rightarrow> string" where
  "int_str i = (if i < 0 then CHR ''-'' # nat_str (nat (- i)) else nat_str (nat i))"

definition quoted :: "string \<Rightarrow> string" where
  "quoted s = CHR 0x27 # s @ [CHR 0x27]"

text \<open>
  \<^verbatim>\<open>repr\<close> of a string: it is put between single quotes, or between double quotes
  when it holds a single quote and no double quote. The backslash and the chosen quote
  get a backslash, tab, line feed and carriage return their letter, and every other
  character that \<^verbatim>\<open>str.isprintable\<close> refuses is written \<^verbatim>\<open>\xhh\<close>. Up to U+00FF
  these are the characters below U+0020, those from U+007F to U+00A0, and U+00AD.
\<close>

definition printable :: "char \<Rightarrow> bool" where
  "printable c =
     (let n = (of_char c :: nat) in (32 \<le> n \<and> n < 127) \<or> (160 < n \<and> n \<noteq> 173))"

definition hex_char :: "nat \<Rightarrow> char" where
  "hex_char d = ''0123456789abcdef'' ! d"

definition repr_char :: "char \<Rightarrow> char \<Rightarrow> string" where
  "repr_char q c =
     (if c = q \<or> c = CHR 0x5C then [CHR 0x5C, c]
      else if c = CHR 0x09 then [CHR 0x5C, CHR ''t'']
      else if c = CHR 0x0A then [CHR 0x5C, CHR ''n'']
      else if c = CHR 0x0D then [CHR 0x5C, CHR ''r'']
      else if \<not> printable c
        then [CHR 0x5C, CHR ''x'', hex_char (of_char c div 16), hex_char (of_char c mod 16)]
      else [c])"

definition repr_str :: "string \<Rightarrow> string" where
  "repr_str s =
     (let q = (if CHR 0x27 \<in> set s \<and> CHR 0x22 \<notin> set s then CHR 0x22 else CHR 0x27)
      in q # concat (map (repr_char q) s) @ [q])"

text \<open>\<^verbatim>\<open>', '.join(parts)\<close>.\<close>

fun join_comma :: "string list \<Rightarrow> string" where
  "join_comma [] = []"
| "join_comma [p] = p"
| "join_comma (p # q # ps) = p @ '', '' @ join_comma (q # ps)"

fun py_repr :: "yaml \<Rightarrow> string" where
  "py_repr YNull = ''None''"
| "py_repr (YBool b) = (if b then ''True'' else ''False'')"
| "py_repr (YInt n) = int_str n"
| "py_repr (YStr s) = repr_str s"
| "py_repr (YList xs) = ''['' @ join_comma (map py_repr xs) @ '']''"
| "py_repr (YMap m) =
     ''{'' @ join_comma (map (\<lambda>kv. repr_str (fst kv) @ '': '' @ py_repr (snd kv)) m) @ ''}''"

text \<open>\<^verbatim>\<open>str(obj)\<close>, which an f-string applies to the value it embeds.\<close>

fun py_str :: "yaml \<Rightarrow> string" where
  "py_str (YStr s) = s"
| "py_str obj = py_repr obj"

section \<open>The validator\<close>

text \<open>
  The object of class \<^verbatim>\<open>AgentYAMLValidator\<close>: its four attributes, and with them
  what the run has written to standard output, one entry for each call of
  \<^verbatim>\<open>print\<close>. An entry is the string handed to \<^verbatim>\<open>print\<close> as the list of its code
  points, since the fixed texts hold characters beyond U+00FF; \<^verbatim>\<open>ustr\<close> gives the
  code points of a string of the document. \<^verbatim>\<open>yaml_file\<close> is the path as \<^verbatim>\<open>str\<close>
  renders it.
\<close>

definition ustr :: "string \<Rightarrow> nat list" where
  "ustr s = map of_char s"

record validator =
  yaml_file :: string
  errors :: "string list"
  warnings :: "string list"
  agent_data :: yaml
  stdout :: "nat list list"

definition VALID_KINDS :: "string list" where
  "VALID_KINDS = [''Prompt'', ''Agent'']"

definition VALID_CONNECTION_KINDS :: "string list" where
  "VALID_CONNECTION_KINDS = [''remote'', ''key'', ''reference'', ''anonymous'']"

definition VALID_TOOL_KINDS :: "string list" where
  "VALID_TOOL_KINDS =
     [''function'', ''web_search'', ''file_search'', ''code_interpreter'',
      ''mcp'', ''openapi'', ''custom'']"

text \<open>\<^verbatim>\<open>__init__\<close>.\<close>

definition init :: "string \<Rightarrow> validator" where
  "init path =
     \<lparr>yaml_file = path, errors = [], warnings = [], agent_data = YMap [], stdout = []\<rparr>"

text \<open>\<^verbatim>\<open>self.errors.append(msg)\<close> and \<^verbatim>\<open>self.warnings.append(msg)\<close>.\<close>

definition add_error :: "validator \<Rightarrow> string \<Rightarrow> validator" where
  "add_error v msg = v\<lparr>errors := errors v @ [msg]\<rparr>"

definition add_warning :: "validator \<Rightarrow> string \<Rightarrow> validator" where
  "add_warning v msg = v\<lparr>warnings := warnings v @ [msg]\<rparr>"

text \<open>
  \<^verbatim>\<open>value not in self.VALID_...\<close>: the lists hold strings, and no object of another
  type equals a string.
\<close>

definition in_strs :: "yaml \<Rightarrow> string list \<Rightarrow> bool" where
  "in_strs obj names = (obj \<in> set (map YStr names))"

text \<open>A list of strings as an f-string prints it.\<close>

definition strs_repr :: "string list \<Rightarrow> string" where
  "strs_repr names = py_repr (YList (map YStr names))"

text \<open>The messages, each one the f-string or literal of the source.\<close>

definition missing_field_msg :: "string \<Rightarrow> string" where
  "missing_field_msg field = ''Missing required field: '' @ quoted field"

definition invalid_kind_msg :: "yaml \<Rightarrow> string" where
  "invalid_kind_msg kind =
     ''Invalid 'kind': '' @ quoted (py_str kind)
     @ '' (must be one of '' @ strs_repr VALID_KINDS @ '')''"

definition no_model_warning :: string where
  "no_model_warning = ''No 'model' section defined''"

definition invalid_connection_kind_msg :: "yaml \<Rightarrow> string" where
  "invalid_connection_kind_msg conn_kind =
     ''Invalid connection kind: '' @ quoted (py_str conn_kind)
     @ '' (must be one of '' @ strs_repr VALID_CONNECTION_KINDS @ '')''"

definition connection_requires_msg :: "string \<Rightarrow> string \<Rightarrow> string" where
  "connection_requires_msg kind field =
     quoted kind @ '' connection requires '' @ quoted field"

definition key_connection_msg :: string where
  "key_connection_msg =
     quoted ''key'' @ '' connection requires '' @ quoted ''apiKey'' @ '' or '' @ quoted ''key''"

definition tool_tag :: "nat \<Rightarrow> string" where
  "tool_tag i = ''Tool #'' @ nat_str (i + 1) @ '': ''"

definition tool_missing_kind_msg :: "nat \<Rightarrow> string" where
  "tool_missing_kind_msg i = tool_tag i @ ''Missing 'kind' field''"

definition tool_invalid_kind_msg :: "nat \<Rightarrow> yaml \<Rightarrow> string" where
  "tool_invalid_kind_msg i tool_kind =
     tool_tag i @ ''Invalid kind '' @ quoted (py_str tool_kind)
     @ '' (must be one of '' @ strs_repr VALID_TOOL_KINDS @ '')''"

definition tool_requires_msg :: "nat \<Rightarrow> string \<Rightarrow> string \<Rightarrow> string" where
  "tool_requires_msg i kind field =
     tool_tag i @ quoted kind @ '' tool requires '' @ quoted field"

text \<open>
  An exception that a rule raises is caught nowhere: it leaves \<^verbatim>\<open>validate\<close> and ends
  the run, so a rule returns either the exception or the validator it has updated.
\<close>

subsection \<open>\<^verbatim>\<open>_validate_required_fields\<close>\<close>

fun required_loop :: "string list \<Rightarrow> validator \<Rightarrow> py_error + validator" where
  "required_loop [] v = Inr v"
| "required_loop (field # rest) v =
     bind_r (py_contains (agent_data v) field) (\<lambda>present.
       required_loop rest
         (if \<not> present then add_error v (missing_field_msg field) else v))"

definition validate_required_fields :: "validator \<Rightarrow> py_error + validator" where
  "validate_required_fields v = required_loop [''kind'', ''name''] v"

subsection \<open>\<^verbatim>\<open>_validate_kind\<close>\<close>

definition validate_kind :: "validator \<Rightarrow> py_error + validator" where
  "validate_kind v =
     bind_r (py_get (agent_data v) ''kind'') (\<lambda>kind.
       Inr (if truthy kind \<and> \<not> in_strs kind VALID_KINDS
            then add_error v (invalid_kind_msg kind)
            else v))"

subsection \<open>\<^verbatim>\<open>_validate_model\<close>\<close>

definition validate_model :: "validator \<Rightarrow> py_error + validator" where
  "validate_model v =
     bind_r (py_get (agent_data v) ''model'') (\<lambda>model.
       if \<not> truthy model then Inr (add_warning v no_model_warning)
       else
         bind_r (py_contains model ''id'') (\<lambda>has_id.
           let v1 = (if \<not> has_id then add_error v (missing_field_msg ''model.id'') else v)
           in bind_r (py_get model ''connection'') (\<lambda>connection.
                if truthy connection then
                  (case connection of
                     YMap c \<Rightarrow>
                       let conn_kind = dict_get c ''kind'';
                           v2 = (if \<not> truthy conn_kind
                                 then add_error v1
                                        (missing_field_msg ''model.connection.kind'')
                                 else if \<not> in_strs conn_kind VALID_CONNECTION_KINDS
                                 then add_error v1 (invalid_connection_kind_msg conn_kind)
                                 else v1)
                       in Inr
                            (if conn_kind = YStr ''remote'' \<and> \<not> has_key c ''endpoint''
                             then add_error v2 (connection_requires_msg ''remote'' ''endpoint'')
                             else if conn_kind = YStr ''key''
                             then (if \<not> has_key c ''apiKey'' \<and> \<not> has_key c ''key''
                                   then add_error v2 key_connection_msg
                                   else v2)
                             else if conn_kind = YStr ''reference'' \<and> \<not> has_key c ''name''
                             then add_error v2 (connection_requires_msg ''reference'' ''name'')
                             else if conn_kind = YStr ''anonymous'' \<and> \<not> has_key c ''endpoint''
                             then add_error v2 (connection_requires_msg ''anonymous'' ''endpoint'')
                             else v2)
                   | _ \<Rightarrow> Inl AttributeError)
                else Inr v1)))"

subsection \<open>\<^verbatim>\<open>_validate_tools\<close>\<close>

text \<open>
  The body of the loop for the entry at index \<^verbatim>\<open>i\<close> of \<^verbatim>\<open>enumerate(tools)\<close>.
  \<^verbatim>\<open>tool.get\<close> needs a dict; the membership tests that follow are then on its keys.
\<close>

definition check_tool :: "nat \<Rightarrow> yaml \<Rightarrow> validator \<Rightarrow> py_error + validator" where
  "check_tool i tool v =
     (case tool of
        YMap t \<Rightarrow>
          let tool_kind = dict_get t ''kind'' in
          if \<not> truthy tool_kind
          then Inr (add_error v (tool_missing_kind_msg i))
          else
            let v1 = (if \<not> in_strs tool_kind VALID_TOOL_KINDS
                      then add_error v (tool_invalid_kind_msg i tool_kind)
                      else v)
            in Inr
                 (if tool_kind = YStr ''function'' then
                    (let v2 = (if \<not> has_key t ''name''
                               then add_error v1 (tool_requires_msg i ''function'' ''name'')
                               else v1)
                     in if \<not> has_key t ''description''
                        then add_error v2 (tool_requires_msg i ''function'' ''description'')
                        else v2)
                  else if tool_kind = YStr ''mcp'' then
                    (let v2 = (if \<not> has_key t ''name''
                               then add_error v1 (tool_requires_msg i ''mcp'' ''name'')
                               else v1)
                     in if \<not> has_key t ''url''
                        then add_error v2 (tool_requires_msg i ''mcp'' ''url'')
                        else v2)
                  else if tool_kind = YStr ''openapi'' then
                    (let v2 = (if \<not> has_key t ''name''
                               then add_error v1 (tool_requires_msg i ''openapi'' ''name'')
                               else v1)
                     in if \<not> has_key t ''specification''
                        then add_error v2 (tool_requires_msg i ''openapi'' ''specification'')
                        else v2)
                  else if tool_kind = YStr ''custom'' then
                    (if \<not> has_key t ''name''
                     then add_error v1 (tool_requires_msg i ''custom'' ''name'')
                     else v1)
                  else v1)
      | _ \<Rightarrow> Inl AttributeError)"

fun tools_loop :: "nat \<Rightarrow> yaml list \<Rightarrow> validator \<Rightarrow> py_error + validator" where
  "tools_loop i [] v = Inr v"
| "tools_loop i (tool # rest) v = bind_r (check_tool i tool v) (tools_loop (Suc i) rest)"

definition validate_tools :: "validator \<Rightarrow> py_error + validator" where
  "validate_tools v =
     bind_r (py_get_default (agent_data v) ''tools'' (YList [])) (\<lambda>tools.
       bind_r (py_iter tools) (\<lambda>entries. tools_loop 0 entries v))"

subsection \<open>\<^verbatim>\<open>_check_powerfx_expressions\<close>\<close>

text \<open>
  The inner function \<^verbatim>\<open>find_expressions\<close> appends to the list \<^verbatim>\<open>expressions\<close>
  while it walks the tree; here it returns what it appends, in the same order. The two
  loops, over the items of a dict and over the enumerated elements of a list, are the
  two companion functions.
\<close>

fun find_expressions :: "yaml \<Rightarrow> string \<Rightarrow> (string \<times> string) list"
  and find_in_dict :: "(string \<times> yaml) list \<Rightarrow> string \<Rightarrow> (string \<times> string) list"
  and find_in_list :: "yaml list \<Rightarrow> nat \<Rightarrow> string \<Rightarrow> (string \<times> string) list"
where
  "find_expressions (YMap m) path = find_in_dict m path"
| "find_expressions (YList xs) path = find_in_list xs 0 path"
| "find_expressions (YStr s) path = (if startswith s ''='' then [(path, s)] else [])"
| "find_expressions YNull path = []"
| "find_expressions (YBool b) path = []"
| "find_expressions (YInt n) path = []"
| "find_in_dict [] path = []"
| "find_in_dict ((k, v) # rest) path =
     find_expressions v (if path \<noteq> [] then path @ ''.'' @ k else k)
     @ find_in_dict rest path"
| "find_in_list [] i path = []"
| "find_in_list (item # rest) i path =
     find_expressions item (path @ ''['' @ nat_str i @ '']'')
     @ find_in_list rest (Suc i) path"

text \<open>\<^verbatim>\<open>expr.split("=Env.")[1].split(")")[0].split(",")[0]\<close>\<close>

definition env_var_name :: "string \<Rightarrow> py_error + string" where
  "env_var_name expr =
     bind_r (py_split expr ''=Env.'') (\<lambda>parts.
     bind_r (py_item parts 1) (\<lambda>rest.
     bind_r (py_split rest '')'') (\<lambda>parts1.
     bind_r (py_item parts1 0) (\<lambda>head.
     bind_r (py_split head '','') (\<lambda>parts2.
     py_item parts2 0)))))"

text \<open>The header line starts with a line feed and the memo sign (U+1F4DD).\<close>

definition expressions_header :: "nat list" where
  "expressions_header = [0x0A, 0x1F4DD] @ ustr '' PowerFx expressions found:''"

text \<open>The hint line: six blanks, the arrow (U+2192), the text and the name.\<close>

definition env_hint :: "string \<Rightarrow> nat list" where
  "env_hint var_name = ustr ''      '' @ [0x2192] @ ustr ('' Requires env var: '' @ var_name)"

definition expression_line :: "string \<Rightarrow> string \<Rightarrow> nat list" where
  "expression_line path expr = ustr (''   '' @ path @ '': '' @ expr)"

fun print_expressions ::
  "(string \<times> string) list \<Rightarrow> nat list list \<Rightarrow> py_error + nat list list" where
  "print_expressions [] out = Inr out"
| "print_expressions ((path, expr) # rest) out =
     (let out1 = out @ [expression_line path expr]
      in if startswith expr ''=Env.''
         then bind_r (env_var_name expr) (\<lambda>var_name.
                print_expressions rest (out1 @ [env_hint var_name]))
         else print_expressions rest out1)"

definition check_powerfx_expressions :: "validator \<Rightarrow> py_error + validator" where
  "check_powerfx_expressions v =
     (let expressions = find_expressions (agent_data v) []
      in if expressions \<noteq> []
         then bind_r (print_expressions expressions (stdout v @ [expressions_header]))
                (\<lambda>out. Inr (v\<lparr>stdout := out\<rparr>))
         else Inr v)"

subsection \<open>\<^verbatim>\<open>validate\<close>\<close>

text \<open>
  What the file system and the YAML parser hand to \<^verbatim>\<open>validate\<close>: the file does not
  exist, \<^verbatim>\<open>yaml.safe_load\<close> raises \<^verbatim>\<open>YAMLError\<close> (with its text), or it returns
  the parsed document.
\<close>

datatype source = NotFound | SyntaxError string | Parsed yaml

definition file_not_found_msg :: "string \<Rightarrow> string" where
  "file_not_found_msg path = ''File not found: '' @ path"

definition invalid_syntax_msg :: "string \<Rightarrow> string" where
  "invalid_syntax_msg e = ''Invalid YAML syntax: '' @ e"

definition validate :: "validator \<Rightarrow> source \<Rightarrow> py_error + bool \<times> validator" where
  "validate v src =
     (case src of
        NotFound \<Rightarrow> Inr (False, add_error v (file_not_found_msg (yaml_file v)))
      | SyntaxError e \<Rightarrow> Inr (False, add_error v (invalid_syntax_msg e))
      | Parsed doc \<Rightarrow>
          bind_r (validate_required_fields (v\<lparr>agent_data := doc\<rparr>)) (\<lambda>v1.
          bind_r (validate_kind v1) (\<lambda>v2.
          bind_r (validate_model v2) (\<lambda>v3.
          bind_r (validate_tools v3) (\<lambda>v4.
          bind_r (check_powerfx_expressions v4) (\<lambda>v5.
          Inr (length (errors v5) = 0, v5)))))))"

section \<open>Documents on which every rule runs to its end\<close>

text \<open>
  The rules call \<^verbatim>\<open>.get\<close> on the root, on a \<^verbatim>\<open>model\<close> value that is not falsy, on a
  \<^verbatim>\<open>connection\<close> value that is not falsy and on every entry of \<^verbatim>\<open>tools\<close>, and they
  iterate over \<^verbatim>\<open>tools\<close>. \<^verbatim>\<open>well_shaped\<close> says that each of these objects is of a type
  that supports the operation.
\<close>

fun is_dict :: "yaml \<Rightarrow> bool" where
  "is_dict (YMap m) = True"
| "is_dict obj = False"

definition model_ok :: "yaml \<Rightarrow> bool" where
  "model_ok model =
     (if truthy model
      then (case model of
              YMap mm \<Rightarrow>
                (let c = dict_get mm ''connection'' in if truthy c then is_dict c else True)
            | _ \<Rightarrow> False)
      else True)"

definition tools_ok :: "yaml \<Rightarrow> bool" where
  "tools_ok tools =
     (case tools of
        YList xs \<Rightarrow> list_all is_dict xs
      | YStr s \<Rightarrow> s = []
      | YMap t \<Rightarrow> t = []
      | _ \<Rightarrow> False)"

definition well_shaped :: "yaml \<Rightarrow> bool" where
  "well_shaped doc =
     (case doc of
        YMap m \<Rightarrow>
          model_ok (dict_get m ''model'')
          \<and> (case map_of m ''tools'' of None \<Rightarrow> True | Some tools \<Rightarrow> tools_ok tools)
      | _ \<Rightarrow> False)"

text \<open>
  Every rule only appends: \<^verbatim>\<open>extends v w\<close> says that \<^verbatim>\<open>w\<close> is \<^verbatim>\<open>v\<close> with more
  errors, warnings or output lines at the end, on the same file and document.
\<close>

definition extends :: "validator \<Rightarrow> validator \<Rightarrow> bool" where
  "extends v w =
     (yaml_file w = yaml_file v \<and> agent_data w = agent_data v
      \<and> prefix (errors v) (errors w) \<and> prefix (warnings v) (warnings w)
      \<and> prefix (stdout v) (stdout w))"

section \<open>What one tool entry adds\<close>



definition more_errors :: "validator \<Rightarrow> string list \<Rightarrow> validator" where
  "more_errors v es = v\<lparr>errors := errors v @ es\<rparr>"


section \<open>The variable name as the specification words it\<close>

text \<open>
  The specification: the name is the substring after \<^verbatim>\<open>=Env.\<close> up to the first
  \<^verbatim>\<open>)\<close> or \<^verbatim>\<open>,\<close>, whichever comes first, and the rest of the string when there is
  neither.
\<close>

definition spec_env_var_name :: "string \<Rightarrow> string" where
  "spec_env_var_name expr =
     takeWhile (\<lambda>c. c \<noteq> CHR '')'' \<and> c \<noteq> CHR '','') (drop (length ''=Env.'') expr)"

section \<open>Properties of the rules\<close>

lemma bind_r_simps [simp]: "bind_r (Inr x) k = k x" "bind_r (Inl e) k = Inl e"
  by (simp_all add: bind_r_def)

lemma bind_r_Inr_iff: "bind_r r k = Inr y \<longleftrightarrow> (\<exists>x. r = Inr x \<and> k x = Inr y)"
  by (cases r) simp_all

lemma add_error_fields [simp]:
  "errors (add_error v msg) = errors v @ [msg]"
  "warnings (add_error v msg) = warnings v"
  "agent_data (add_error v msg) = agent_data v"
  "stdout (add_error v msg) = stdout v"
  "yaml_file (add_error v msg) = yaml_file v"
  by (simp_all add: add_error_def)

lemma add_warning_fields [simp]:
  "errors (add_warning v msg) = errors v"
  "warnings (add_warning v msg) = warnings v @ [msg]"
  "agent_data (add_warning v msg) = agent_data v"
  "stdout (add_warning v msg) = stdout v"
  "yaml_file (add_warning v msg) = yaml_file v"
  by (simp_all add: add_warning_def)

subsection \<open>extends\<close>

lemma extends_refl: "extends v v"
  by (simp add: extends_def)

lemma extends_add_error: "extends v w \<Longrightarrow> extends v (add_error w msg)"
  by (simp add: extends_def)

lemma extends_add_warning: "extends v w \<Longrightarrow> extends v (add_warning w msg)"
  by (simp add: extends_def)

lemma extends_if: "extends v a \<Longrightarrow> extends v b \<Longrightarrow> extends v (if c then a else b)"
  by simp

lemma extends_trans: "extends u v \<Longrightarrow> extends v w \<Longrightarrow> extends u w"
  by (auto simp: extends_def)

lemmas extends_intros = extends_if extends_add_error extends_add_warning extends_refl

lemma extends_errors_subset: "extends v w \<Longrightarrow> set (errors v) \<subseteq> set (errors w)"
  by (auto simp: extends_def dest: set_mono_prefix)

lemma extends_errors_nonempty: "extends v w \<Longrightarrow> errors v \<noteq> [] \<Longrightarrow> errors w \<noteq> []"
  by (auto simp: extends_def)

subsection \<open>required fields\<close>

lemma required_loop_dict:
  "agent_data v = YMap m \<Longrightarrow>
   \<exists>v'. required_loop fs v = Inr v' \<and> extends v v'
        \<and> errors v' = errors v @ map missing_field_msg (filter (\<lambda>f. \<not> has_key m f) fs)"
proof (induction fs arbitrary: v)
  case Nil
  then show ?case by (simp add: extends_refl)
next
  case (Cons f fs)
  show ?case
  proof (cases "has_key m f")
    case True
    with Cons.IH [OF Cons.prems] Cons.prems show ?thesis by simp
  next
    case False
    let ?w = "add_error v (missing_field_msg f)"
    have "agent_data ?w = YMap m"
      using Cons.prems by simp
    from Cons.IH [OF this] obtain v' where
      v': "required_loop fs ?w = Inr v'" "extends ?w v'"
        "errors v' = errors ?w @ map missing_field_msg (filter (\<lambda>f. \<not> has_key m f) fs)"
      by blast
    have "extends v ?w" by (intro extends_intros)
    from extends_trans [OF this v'(2)] have "extends v v'" .
    with v' False Cons.prems show ?thesis by simp
  qed
qed

lemma validate_required_fields_dict:
  "agent_data v = YMap m \<Longrightarrow>
   \<exists>v'. validate_required_fields v = Inr v' \<and> extends v v'
        \<and> errors v' = errors v
             @ (if has_key m ''kind'' then [] else [missing_field_msg ''kind''])
             @ (if has_key m ''name'' then [] else [missing_field_msg ''name''])"
  using required_loop_dict [of v m "[''kind'', ''name'']"]
  by (auto simp: validate_required_fields_def)

lemma required_loop_data:
  "required_loop fs v = Inr v' \<Longrightarrow> agent_data v' = agent_data v"
proof (induction fs arbitrary: v)
  case Nil
  then show ?case by simp
next
  case (Cons f fs)
  then show ?case
    by (cases "py_contains (agent_data v) f") (auto split: if_splits)
qed

lemma required_loop_no_container:
  "py_contains (agent_data v) f = Inl e \<Longrightarrow> required_loop (f # fs) v = Inl e"
  by simp

subsection \<open>kind\<close>

lemma validate_kind_dict:
  "agent_data v = YMap m \<Longrightarrow>
   validate_kind v =
     Inr (if truthy (dict_get m ''kind'') \<and> \<not> in_strs (dict_get m ''kind'') VALID_KINDS
          then add_error v (invalid_kind_msg (dict_get m ''kind'')) else v)"
  by (simp add: validate_kind_def)

lemma validate_kind_extends:
  "agent_data v = YMap m \<Longrightarrow> \<exists>v'. validate_kind v = Inr v' \<and> extends v v'"
  by (simp add: validate_kind_dict extends_intros)

lemma validate_kind_not_dict:
  "\<not> is_dict (agent_data v) \<Longrightarrow> validate_kind v = Inl AttributeError"
  by (cases "agent_data v") (simp_all add: validate_kind_def)

subsection \<open>model\<close>

lemma validate_model_falsy:
  "agent_data v = YMap m \<Longrightarrow> \<not> truthy (dict_get m ''model'') \<Longrightarrow>
   validate_model v = Inr (add_warning v no_model_warning)"
  by (simp add: validate_model_def)

lemma validate_model_no_connection:
  "agent_data v = YMap m \<Longrightarrow> dict_get m ''model'' = YMap mm \<Longrightarrow> mm \<noteq> [] \<Longrightarrow>
   \<not> truthy (dict_get mm ''connection'') \<Longrightarrow>
   validate_model v =
     Inr (if has_key mm ''id'' then v else add_error v (missing_field_msg ''model.id''))"
  by (simp add: validate_model_def)

lemma warnings_if: "warnings a = x \<Longrightarrow> warnings b = x \<Longrightarrow> warnings (if c then a else b) = x"
  by simp

lemma warnings_add_error: "warnings a = x \<Longrightarrow> warnings (add_error a msg) = x"
  by simp

lemma validate_model_connection:
  assumes "agent_data v = YMap m" "dict_get m ''model'' = YMap mm" "mm \<noteq> []"
    "dict_get mm ''connection'' = YMap c" "c \<noteq> []"
  shows "\<exists>v'. validate_model v = Inr v'
          \<and> extends (if has_key mm ''id'' then v
                      else add_error v (missing_field_msg ''model.id'')) v'
          \<and> warnings v' = warnings v"
proof (cases "has_key mm ''id''")
  case True
  show ?thesis
    unfolding validate_model_def Let_def using assms True
    apply (simp split del: if_split cong del: if_weak_cong)
    apply (rule extends_refl refl
        | rule conjI extends_if warnings_if extends_add_error warnings_add_error)+
    done
next
  case False
  show ?thesis
    unfolding validate_model_def Let_def using assms False
    apply (simp split del: if_split cong del: if_weak_cong)
    apply (rule extends_refl refl
        | rule conjI extends_if warnings_if extends_add_error warnings_add_error)+
    done
qed

subsection \<open>tools\<close>

lemma check_tool_falsy_kind:
  "\<not> truthy (dict_get t ''kind'') \<Longrightarrow>
   check_tool i (YMap t) v = Inr (add_error v (tool_missing_kind_msg i))"
  by (simp add: check_tool_def)

lemma check_tool_extends: "\<exists>v'. check_tool i (YMap t) v = Inr v' \<and> extends v v'"
proof (cases "truthy (dict_get t ''kind'')")
  case False
  then show ?thesis by (simp add: check_tool_falsy_kind extends_add_error extends_refl)
next
  case True
  show ?thesis
    unfolding check_tool_def Let_def using True
    apply (simp split del: if_split cong del: if_weak_cong)
    apply (rule extends_refl | rule extends_if extends_add_error)+
    done
qed

lemma check_tool_not_dict: "\<not> is_dict tool \<Longrightarrow> check_tool i tool v = Inl AttributeError"
  by (cases tool) (simp_all add: check_tool_def)

lemma tools_loop_ok:
  "list_all is_dict xs \<Longrightarrow> \<exists>v'. tools_loop i xs v = Inr v' \<and> extends v v'"
proof (induction xs arbitrary: i v)
  case Nil
  then show ?case by (simp add: extends_refl)
next
  case (Cons x xs)
  then obtain t where x: "x = YMap t" by (cases x) simp_all
  from check_tool_extends [of i t v] obtain w where
    w: "check_tool i (YMap t) v = Inr w" "extends v w" by blast
  from Cons.prems have "list_all is_dict xs" by simp
  from Cons.IH [OF this, of "Suc i" w] obtain v' where
    v': "tools_loop (Suc i) xs w = Inr v'" "extends w v'" by blast
  from extends_trans [OF w(2) v'(2)] x w(1) v'(1) show ?case by simp
qed

lemma tools_loop_bad:
  "\<not> list_all is_dict xs \<Longrightarrow> tools_loop i xs v = Inl AttributeError"
proof (induction xs arbitrary: i v)
  case Nil
  then show ?case by simp
next
  case (Cons x xs)
  show ?case
  proof (cases "is_dict x")
    case False
    then show ?thesis by (simp add: check_tool_not_dict)
  next
    case True
    then obtain t where x: "x = YMap t" by (cases x) simp_all
    from check_tool_extends [of i t v] obtain w where
      w: "check_tool i (YMap t) v = Inr w" by blast
    from Cons.prems True have "\<not> list_all is_dict xs" by simp
    from Cons.IH [OF this, of "Suc i" w] x w show ?thesis by simp
  qed
qed

lemma validate_tools_ok:
  assumes "agent_data v = YMap m"
    and "case map_of m ''tools'' of None \<Rightarrow> True | Some tools \<Rightarrow> tools_ok tools"
  shows "\<exists>v'. validate_tools v = Inr v' \<and> extends v v'"
proof (cases "map_of m ''tools''")
  case None
  with assms show ?thesis by (simp add: validate_tools_def extends_refl)
next
  case (Some tools)
  with assms have ok: "tools_ok tools" by simp
  show ?thesis
  proof (cases tools)
    case (YList xs)
    with ok have "list_all is_dict xs" by (simp add: tools_ok_def)
    from tools_loop_ok [OF this, of 0 v] YList Some assms(1) show ?thesis
      by (simp add: validate_tools_def)
  qed (use ok Some assms(1) in \<open>simp_all add: tools_ok_def validate_tools_def extends_refl\<close>)
qed

lemma tools_loop_strs:
  assumes "\<And>x. \<not> is_dict (f x)" and "xs \<noteq> []"
  shows "tools_loop i (map f xs) v = Inl AttributeError"
  using assms by (cases xs) (simp_all add: check_tool_not_dict)

lemma validate_tools_bad:
  assumes "agent_data v = YMap m"
    and "\<not> (case map_of m ''tools'' of None \<Rightarrow> True | Some tools \<Rightarrow> tools_ok tools)"
  shows "\<exists>e. validate_tools v = Inl e"
proof -
  from assms(2) obtain tools where
    tools: "map_of m ''tools'' = Some tools" "\<not> tools_ok tools"
    by (cases "map_of m ''tools''") simp_all
  show ?thesis
  proof (cases tools)
    case (YList xs)
    with tools have "\<not> list_all is_dict xs" by (simp add: tools_ok_def)
    from tools_loop_bad [OF this, of 0 v] YList tools assms(1) show ?thesis
      by (simp add: validate_tools_def)
  next
    case (YStr s)
    with tools have "s \<noteq> []" by (simp add: tools_ok_def)
    then have "tools_loop 0 (map (\<lambda>c. YStr [c]) s) v = Inl AttributeError"
      by (intro tools_loop_strs) simp_all
    with YStr tools assms(1) show ?thesis by (simp add: validate_tools_def)
  next
    case (YMap t)
    with tools have "t \<noteq> []" by (simp add: tools_ok_def)
    then have "tools_loop 0 (map (\<lambda>kv. YStr (fst kv)) t) v = Inl AttributeError"
      by (intro tools_loop_strs) simp_all
    with YMap tools assms(1) show ?thesis by (simp add: validate_tools_def)
  qed (use tools assms(1) in \<open>simp_all add: validate_tools_def\<close>)
qed

subsection \<open>split\<close>

lemma split_on_not_Nil: "split_on sep s \<noteq> []"
  by (induction sep s rule: split_on.induct) (auto split: list.splits)

lemma split_on_prefix:
  "sep \<noteq> [] \<Longrightarrow> prefix sep s \<Longrightarrow> split_on sep s = [] # split_on sep (drop (length sep) s)"
  by (cases s) auto

lemma hd_split_on_char: "hd (split_on [c] s) = takeWhile (\<lambda>x. x \<noteq> c) s"
proof (induction s)
  case Nil
  then show ?case by simp
next
  case (Cons x xs)
  with split_on_not_Nil [of "[c]" xs] show ?case
    by (cases "split_on [c] xs") auto
qed

lemma split_on_absent: "\<not> occurs_in sep s \<Longrightarrow> split_on sep s = [s]"
  by (induction s) auto

lemma hd_split_on_decomp:
  "sep \<noteq> [] \<Longrightarrow> \<exists>tail. s = hd (split_on sep s) @ tail \<and> (tail = [] \<or> prefix sep tail)"
proof (induction s)
  case Nil
  then show ?case by simp
next
  case (Cons x xs)
  show ?case
  proof (cases "prefix sep (x # xs)")
    case True
    with Cons.prems show ?thesis by simp
  next
    case False
    from Cons.IH [OF Cons.prems] obtain tail where
      "xs = hd (split_on sep xs) @ tail" "tail = [] \<or> prefix sep tail" by blast
    with False split_on_not_Nil [of sep xs] show ?thesis
      by (cases "split_on sep xs") auto
  qed
qed

lemma hd_split_on_prefix: "prefix (hd (split_on sep s)) s"
proof (induction s)
  case Nil
  then show ?case by simp
next
  case (Cons x xs)
  with split_on_not_Nil [of sep xs] show ?case
    by (cases "split_on sep xs") auto
qed

lemma hd_split_on_free: "sep \<noteq> [] \<Longrightarrow> \<not> occurs_in sep (hd (split_on sep s))"
proof (induction s)
  case Nil
  then show ?case by simp
next
  case (Cons x xs)
  show ?case
  proof (cases "prefix sep (x # xs)")
    case True
    with Cons.prems show ?thesis by simp
  next
    case False
    obtain p ps where sp: "split_on sep xs = p # ps"
      using split_on_not_Nil [of sep xs] by (cases "split_on sep xs") auto
    from hd_split_on_prefix [of sep xs] sp have "prefix (x # p) (x # xs)" by simp
    with False have "\<not> prefix sep (x # p)"
      using prefix_order.trans by blast
    moreover from Cons.IH [OF Cons.prems] sp have "\<not> occurs_in sep p" by simp
    ultimately show ?thesis using False sp by simp
  qed
qed

lemma occurs_in_append: "occurs_in sep a \<Longrightarrow> occurs_in sep (a @ b)"
proof (induction a)
  case Nil
  then show ?case by (cases b) simp_all
next
  case (Cons x xs)
  then show ?case by (auto intro: prefix_order.trans)
qed

subsection \<open>env var name\<close>

lemma takeWhile_twice:
  "takeWhile P (takeWhile Q xs) = takeWhile (\<lambda>x. Q x \<and> P x) xs"
  by (induction xs) simp_all

lemma py_item_hd: "xs \<noteq> [] \<Longrightarrow> py_item xs 0 = Inr (hd xs)"
  by (cases xs) (simp_all add: py_item_def)

lemma env_var_name_eq:
  assumes "startswith expr ''=Env.''"
  shows "env_var_name expr =
           Inr (takeWhile (\<lambda>c. c \<noteq> CHR '')'' \<and> c \<noteq> CHR '','')
                  (hd (split_on ''=Env.'' (drop (length ''=Env.'') expr))))"
proof -
  let ?rest = "drop (length ''=Env.'') expr"
  from assms have "split_on ''=Env.'' expr = [] # split_on ''=Env.'' ?rest"
    unfolding startswith_def by (intro split_on_prefix) simp_all
  moreover obtain p ps where sp: "split_on ''=Env.'' ?rest = p # ps"
    using split_on_not_Nil [of "''=Env.''" ?rest] by (cases "split_on ''=Env.'' ?rest") auto
  ultimately have parts: "py_split expr ''=Env.'' = Inr ([] # p # ps)"
    by (simp add: py_split_def)
  have item1: "py_item ([] # p # ps) 1 = Inr p"
    by (simp add: py_item_def)
  have s1: "py_split p '')'' = Inr (split_on '')'' p)"
    by (simp add: py_split_def)
  have i1: "py_item (split_on '')'' p) 0 = Inr (takeWhile (\<lambda>x. x \<noteq> CHR '')'') p)"
    by (simp add: py_item_hd split_on_not_Nil hd_split_on_char)
  have s2: "py_split (takeWhile (\<lambda>x. x \<noteq> CHR '')'') p) '','' =
              Inr (split_on '','' (takeWhile (\<lambda>x. x \<noteq> CHR '')'') p))"
    by (simp add: py_split_def)
  have i2: "py_item (split_on '','' (takeWhile (\<lambda>x. x \<noteq> CHR '')'') p)) 0 =
              Inr (takeWhile (\<lambda>c. c \<noteq> CHR '')'' \<and> c \<noteq> CHR '','') p)"
    by (simp add: py_item_hd split_on_not_Nil hd_split_on_char takeWhile_twice)
  show ?thesis
    unfolding env_var_name_def by (simp only: parts item1 s1 i1 s2 i2 bind_r_simps sp list.sel)
qed

lemma print_expressions_ok:
  "\<exists>out'. print_expressions xs out = Inr out' \<and> prefix out out'"
proof (induction xs arbitrary: out)
  case Nil
  then show ?case by simp
next
  case (Cons x xs)
  obtain path expr where x: "x = (path, expr)" by (cases x)
  show ?case
  proof (cases "startswith expr ''=Env.''")
    case True
    from env_var_name_eq [OF True] obtain name where name: "env_var_name expr = Inr name"
      by blast
    from Cons.IH [of "(out @ [expression_line path expr]) @ [env_hint name]"]
    obtain out' where
      "print_expressions xs ((out @ [expression_line path expr]) @ [env_hint name]) = Inr out'"
      "prefix ((out @ [expression_line path expr]) @ [env_hint name]) out'" by blast
    with True name x show ?thesis
      by (auto simp: Let_def dest: append_prefixD)
  next
    case False
    from Cons.IH [of "out @ [expression_line path expr]"]
    obtain out' where
      "print_expressions xs (out @ [expression_line path expr]) = Inr out'"
      "prefix (out @ [expression_line path expr]) out'" by blast
    with False x show ?thesis
      by (auto simp: Let_def dest: append_prefixD)
  qed
qed

lemma check_powerfx_expressions_ok:
  "\<exists>v'. check_powerfx_expressions v = Inr v' \<and> extends v v' \<and> errors v' = errors v
        \<and> warnings v' = warnings v"
proof (cases "find_expressions (agent_data v) [] = []")
  case True
  then show ?thesis by (simp add: check_powerfx_expressions_def extends_refl)
next
  case False
  from print_expressions_ok
    [of "find_expressions (agent_data v) []" "stdout v @ [expressions_header]"]
  obtain out' where
    "print_expressions (find_expressions (agent_data v) []) (stdout v @ [expressions_header])
       = Inr out'"
    "prefix (stdout v @ [expressions_header]) out'" by blast
  with False show ?thesis
    by (auto simp: check_powerfx_expressions_def extends_def dest: append_prefixD)
qed

subsection \<open>model, summary\<close>

lemma validate_model_ok:
  assumes "agent_data v = YMap m" "model_ok (dict_get m ''model'')"
  shows "\<exists>v'. validate_model v = Inr v' \<and> extends v v'"
proof (cases "truthy (dict_get m ''model'')")
  case False
  with assms(1) show ?thesis
    by (simp add: validate_model_falsy extends_add_warning extends_refl)
next
  case True
  with assms(2) obtain mm where mm: "dict_get m ''model'' = YMap mm" "mm \<noteq> []"
    by (cases "dict_get m ''model''") (simp_all add: model_ok_def)
  show ?thesis
  proof (cases "truthy (dict_get mm ''connection'')")
    case False
    with assms(1) mm show ?thesis
      by (simp add: validate_model_no_connection extends_add_error extends_refl)
  next
    case True
    with assms(2) mm obtain c where c: "dict_get mm ''connection'' = YMap c" "c \<noteq> []"
      by (cases "dict_get mm ''connection''") (simp_all add: model_ok_def)
    from validate_model_connection [OF assms(1) mm c] obtain v' where
      v': "validate_model v = Inr v'"
        "extends (if has_key mm ''id'' then v
                  else add_error v (missing_field_msg ''model.id'')) v'"
      by blast
    have "extends v (if has_key mm ''id'' then v
                     else add_error v (missing_field_msg ''model.id''))"
      by (intro extends_intros)
    from extends_trans [OF this v'(2)] v'(1) show ?thesis by simp
  qed
qed

lemma validate_model_bad:
  assumes "agent_data v = YMap m" "\<not> model_ok (dict_get m ''model'')"
  shows "\<exists>e. validate_model v = Inl e"
proof -
  from assms(2) have t: "truthy (dict_get m ''model'')"
    by (simp add: model_ok_def split: if_splits)
  show ?thesis
  proof (cases "dict_get m ''model''")
    case (YMap mm)
    with assms(2) t have c: "truthy (dict_get mm ''connection'')"
      "\<not> is_dict (dict_get mm ''connection'')"
      by (simp_all add: model_ok_def Let_def split: if_splits)
    then show ?thesis
      using assms(1) YMap t
      by (cases "dict_get mm ''connection''") (simp_all add: validate_model_def)
  qed (use assms(1) t in \<open>simp_all add: validate_model_def\<close>)
qed

subsection \<open>validate\<close>

lemma validate_well_shaped:
  assumes "well_shaped (YMap m)"
  shows "\<exists>v'. validate v (Parsed (YMap m)) = Inr (errors v' = [], v')
          \<and> prefix (errors v
               @ (if has_key m ''kind'' then [] else [missing_field_msg ''kind''])
               @ (if has_key m ''name'' then [] else [missing_field_msg ''name'']))
              (errors v')"
proof -
  let ?v0 = "v\<lparr>agent_data := YMap m\<rparr>"
  from assms have mok: "model_ok (dict_get m ''model'')"
    and tok: "case map_of m ''tools'' of None \<Rightarrow> True | Some tools \<Rightarrow> tools_ok tools"
    by (simp_all add: well_shaped_def)
  have d0: "agent_data ?v0 = YMap m" by simp
  from validate_required_fields_dict [OF d0] obtain v1 where
    v1: "validate_required_fields ?v0 = Inr v1" "extends ?v0 v1"
      "errors v1 = errors ?v0
         @ (if has_key m ''kind'' then [] else [missing_field_msg ''kind''])
         @ (if has_key m ''name'' then [] else [missing_field_msg ''name''])"
    by blast
  from v1(2) have d1: "agent_data v1 = YMap m" by (simp add: extends_def)
  from validate_kind_extends [OF d1] obtain v2 where
    v2: "validate_kind v1 = Inr v2" "extends v1 v2" by blast
  from v2(2) d1 have d2: "agent_data v2 = YMap m" by (simp add: extends_def)
  from validate_model_ok [OF d2 mok] obtain v3 where
    v3: "validate_model v2 = Inr v3" "extends v2 v3" by blast
  from v3(2) d2 have d3: "agent_data v3 = YMap m" by (simp add: extends_def)
  from validate_tools_ok [OF d3 tok] obtain v4 where
    v4: "validate_tools v3 = Inr v4" "extends v3 v4" by blast
  from check_powerfx_expressions_ok [of v4] obtain v5 where
    v5: "check_powerfx_expressions v4 = Inr v5" "extends v4 v5" by blast
  have "extends v1 v5"
    using extends_trans [OF extends_trans [OF extends_trans [OF v2(2) v3(2)] v4(2)] v5(2)] .
  then have "prefix (errors v1) (errors v5)" by (simp add: extends_def)
  moreover have "validate v (Parsed (YMap m)) = Inr (errors v5 = [], v5)"
    by (simp add: validate_def v1(1) v2(1) v3(1) v4(1) v5(1))
  ultimately show ?thesis using v1(3) by auto
qed

lemma py_contains_Inl: "py_contains obj f = Inl e \<Longrightarrow> e = TypeError"
  by (cases obj) simp_all

lemma required_loop_Inl: "required_loop fs v = Inl e \<Longrightarrow> e = TypeError"
proof (induction fs arbitrary: v)
  case Nil
  then show ?case by simp
next
  case (Cons f fs)
  show ?case
  proof (cases "py_contains (agent_data v) f")
    case (Inl e')
    with Cons.prems py_contains_Inl [OF Inl] show ?thesis by simp
  next
    case (Inr present)
    with Cons.prems Cons.IH show ?thesis by simp
  qed
qed

lemma validate_not_dict:
  assumes "\<not> is_dict doc"
  shows "validate v (Parsed doc) = Inl TypeError \<or> validate v (Parsed doc) = Inl AttributeError"
proof (cases "required_loop [''kind'', ''name''] (v\<lparr>agent_data := doc\<rparr>)")
  case (Inl e)
  from required_loop_Inl [OF Inl] Inl show ?thesis
    by (simp add: validate_def validate_required_fields_def)
next
  case (Inr w)
  from required_loop_data [OF Inr] have "agent_data w = doc" by simp
  with assms have "validate_kind w = Inl AttributeError"
    by (simp add: validate_kind_not_dict)
  with Inr show ?thesis
    by (simp add: validate_def validate_required_fields_def)
qed

lemma validate_ill_shaped:
  assumes "\<not> well_shaped doc"
  shows "\<exists>e. validate v (Parsed doc) = Inl e"
proof (cases "is_dict doc")
  case False
  from validate_not_dict [OF this, of v] show ?thesis by blast
next
  case True
  then obtain m where doc: "doc = YMap m" by (cases doc) simp_all
  let ?v0 = "v\<lparr>agent_data := YMap m\<rparr>"
  have d0: "agent_data ?v0 = YMap m" by simp
  from validate_required_fields_dict [OF d0] obtain v1 where
    v1: "validate_required_fields ?v0 = Inr v1" "extends ?v0 v1" by blast
  from v1(2) have d1: "agent_data v1 = YMap m" by (simp add: extends_def)
  from validate_kind_extends [OF d1] obtain v2 where
    v2: "validate_kind v1 = Inr v2" "extends v1 v2" by blast
  from v2(2) d1 have d2: "agent_data v2 = YMap m" by (simp add: extends_def)
  show ?thesis
  proof (cases "model_ok (dict_get m ''model'')")
    case False
    from validate_model_bad [OF d2 False] obtain e where "validate_model v2 = Inl e" by blast
    with v1(1) v2(1) doc show ?thesis by (simp add: validate_def)
  next
    case True
    from validate_model_ok [OF d2 True] obtain v3 where
      v3: "validate_model v2 = Inr v3" "extends v2 v3" by blast
    from v3(2) d2 have d3: "agent_data v3 = YMap m" by (simp add: extends_def)
    from assms doc True
    have "\<not> (case map_of m ''tools'' of None \<Rightarrow> True | Some tools \<Rightarrow> tools_ok tools)"
      by (simp add: well_shaped_def)
    from validate_tools_bad [OF d3 this] obtain e where "validate_tools v3 = Inl e" by blast
    with v1(1) v2(1) v3(1) doc show ?thesis by (simp add: validate_def)
  qed
qed

lemma validate_returns_iff:
  "(\<exists>r. validate v (Parsed doc) = Inr r) \<longleftrightarrow> well_shaped doc"
proof
  assume ret: "\<exists>r. validate v (Parsed doc) = Inr r"
  show "well_shaped doc"
  proof (rule ccontr)
    assume "\<not> well_shaped doc"
    from validate_ill_shaped [OF this, of v] obtain e where "validate v (Parsed doc) = Inl e"
      by blast
    with ret show False by auto
  qed
next
  assume ws: "well_shaped doc"
  then obtain m where "doc = YMap m" by (cases doc) (simp_all add: well_shaped_def)
  with validate_well_shaped [of m v] ws show "\<exists>r. validate v (Parsed doc) = Inr r" by auto
qed

subsection \<open>the name after the prefix\<close>

lemma hd_split_on_step:
  "\<not> prefix sep (c # cs) \<Longrightarrow> hd (split_on sep (c # cs)) = c # hd (split_on sep cs)"
  using split_on_not_Nil [of sep cs] by (cases "split_on sep cs") auto

lemma hd_split_on_hit:
  "sep \<noteq> [] \<Longrightarrow> prefix sep s \<Longrightarrow> hd (split_on sep s) = []"
  by (simp add: split_on_prefix)

lemma hd_split_on_Nil: "hd (split_on sep []) = []"
  by simp

lemmas name_eval =
  env_var_name_eq startswith_def hd_split_on_step hd_split_on_hit hd_split_on_Nil

lemma env_var_name_decomp:
  assumes sw: "startswith expr ''=Env.''"
  shows "\<exists>name tail. env_var_name expr = Inr name
           \<and> drop (length ''=Env.'') expr = name @ tail
           \<and> CHR '')'' \<notin> set name \<and> CHR '','' \<notin> set name
           \<and> \<not> occurs_in ''=Env.'' name
           \<and> (tail = [] \<or> prefix '')'' tail \<or> prefix '','' tail \<or> prefix ''=Env.'' tail)"
proof -
  let ?ok = "\<lambda>c. c \<noteq> CHR '')'' \<and> c \<noteq> CHR '',''"
  let ?rest = "drop (length ''=Env.'') expr"
  let ?seg = "hd (split_on ''=Env.'' ?rest)"
  let ?name = "takeWhile ?ok ?seg"
  let ?tail = "dropWhile ?ok ?seg"
  from hd_split_on_decomp [of "''=Env.''" ?rest] obtain tail0 where
    t0: "?rest = ?seg @ tail0" "tail0 = [] \<or> prefix ''=Env.'' tail0" by auto
  have name: "env_var_name expr = Inr ?name"
    by (rule env_var_name_eq [OF sw])
  have "?rest = (?name @ ?tail) @ tail0"
    by (subst takeWhile_dropWhile_id) (rule t0(1))
  then have rest: "?rest = ?name @ (?tail @ tail0)"
    by (simp only: append_assoc)
  have d1: "CHR '')'' \<notin> set ?name"
    by (auto dest: set_takeWhileD)
  have d2: "CHR '','' \<notin> set ?name"
    by (auto dest: set_takeWhileD)
  have free: "\<not> occurs_in ''=Env.'' ?name"
  proof
    assume "occurs_in ''=Env.'' ?name"
    then have "occurs_in ''=Env.'' (?name @ ?tail)"
      by (rule occurs_in_append)
    then have "occurs_in ''=Env.'' ?seg"
      by (simp only: takeWhile_dropWhile_id)
    moreover have "\<not> occurs_in ''=Env.'' ?seg"
      by (rule hd_split_on_free) simp
    ultimately show False by (rule notE [rotated])
  qed
  have tail: "?tail @ tail0 = [] \<or> prefix '')'' (?tail @ tail0)
      \<or> prefix '','' (?tail @ tail0) \<or> prefix ''=Env.'' (?tail @ tail0)"
  proof (cases ?tail)
    case Nil
    then have eq: "?tail @ tail0 = tail0" by (simp only: append_Nil)
    from t0(2) show ?thesis unfolding eq by blast
  next
    case (Cons d ds)
    then have eq: "?tail @ tail0 = d # (ds @ tail0)" by (simp only: append_Cons)
    from Cons have "?tail \<noteq> []" by (simp only: list.distinct not_False_eq_True)
    from hd_dropWhile [OF this] have "\<not> ?ok (hd ?tail)" .
    then have "d = CHR '')'' \<or> d = CHR '',''"
      unfolding Cons list.sel by blast
    then show ?thesis unfolding eq by auto
  qed
  show ?thesis
    apply (rule exI [of _ ?name])
    apply (rule exI [of _ "?tail @ tail0"])
    apply (intro conjI)
         apply (rule name)
        apply (rule rest)
       apply (rule d1)
      apply (rule d2)
     apply (rule free)
    apply (rule tail)
    done
qed

lemma env_var_name_spec:
  assumes sw: "startswith expr ''=Env.''"
    and no: "\<not> occurs_in ''=Env.'' (drop (length ''=Env.'') expr)"
  shows "env_var_name expr = Inr (spec_env_var_name expr)"
  unfolding spec_env_var_name_def env_var_name_eq [OF sw] split_on_absent [OF no]
  by simp

section \<open>The claims of the specification\<close>





lemma has_key_not_Nil: "dict_get m k = YMap c \<Longrightarrow> m \<noteq> []"
  by (cases m) (simp_all add: dict_get_def)

lemma has_key_not_Nil': "dict_get m k = YStr (x # xs) \<Longrightarrow> m \<noteq> []"
  by (cases m) (simp_all add: dict_get_def)

lemmas eval_defs =
  validate_def init_def validate_required_fields_def validate_kind_def
  validate_model_def validate_tools_def check_powerfx_expressions_def has_key_def
  dict_get_def in_strs_def VALID_KINDS_def add_warning_def add_error_def startswith_def

text \<open>
  Claim C1. Whenever \<^verbatim>\<open>validate\<close> returns, its boolean result is true exactly when the
  list of errors it leaves is empty; two runs that leave the same errors give the same
  result, whatever their warnings, their printed expressions, their documents and their
  starting states are. On every document of the shapes the rules dereference
  (\<^verbatim>\<open>well_shaped\<close>) it does return.
\<close>

theorem validate_result_iff_no_errors:
  "(validate v src = Inr (b, v') \<longrightarrow> b = (errors v' = []))
   \<and> (validate v src = Inr (b, v') \<and> validate w src' = Inr (c, w') \<and> errors v' = errors w'
        \<longrightarrow> b = c)
   \<and> (well_shaped doc \<longrightarrow> (\<exists>r. validate v (Parsed doc) = Inr r))"
proof -
  have *: "b = (errors v' = [])" if "validate v src = Inr (b, v')" for v src b v'
    using that by (auto simp: validate_def bind_r_Inr_iff split: source.splits)
  have "b = c" if "validate v src = Inr (b, v')" "validate w src' = Inr (c, w')"
    "errors v' = errors w'"
    using * [OF that(1)] * [OF that(2)] that(3) by simp
  with * validate_returns_iff [of v doc] show ?thesis by blast
qed

text \<open>
  Claim C1, at the document \<^verbatim>\<open>{kind: Agent, name: x}\<close>: it is well shaped, the run
  returns true and leaves no error.
\<close>

theorem validate_result_iff_no_errors_witness:
  "validate (init ''agent.yaml'') (Parsed (YMap [(''kind'', YStr ''Agent''), (''name'', YStr ''x'')]))
     = Inr (True, (init ''agent.yaml'')\<lparr>warnings := [no_model_warning],
                   agent_data := YMap [(''kind'', YStr ''Agent''), (''name'', YStr ''x'')]\<rparr>)
   \<and> True = (errors ((init ''agent.yaml'')\<lparr>warnings := [no_model_warning],
                   agent_data := YMap [(''kind'', YStr ''Agent''), (''name'', YStr ''x'')]\<rparr>) = [])
   \<and> well_shaped (YMap [(''kind'', YStr ''Agent''), (''name'', YStr ''x'')])"
  using validate_result_iff_no_errors
    [of "init ''agent.yaml''"
        "Parsed (YMap [(''kind'', YStr ''Agent''), (''name'', YStr ''x'')])" True
        "(init ''agent.yaml'')\<lparr>warnings := [no_model_warning],
           agent_data := YMap [(''kind'', YStr ''Agent''), (''name'', YStr ''x'')]\<rparr>"]
  by (simp add: eval_defs well_shaped_def model_ok_def)

text \<open>
  Claim C2. A parsed root that is not a mapping is not reported as an error: the first
  rule tests \<^verbatim>\<open>field not in self.agent_data\<close>, which raises \<^verbatim>\<open>TypeError\<close> on
  \<^verbatim>\<open>None\<close> and on a number, and on a string or a list the next rule calls
  \<^verbatim>\<open>.get\<close>, which raises \<^verbatim>\<open>AttributeError\<close>. Nothing catches either, so
  \<^verbatim>\<open>validate\<close> returns no result at all.
\<close>

theorem non_mapping_root_raises:
  "validate (init path) (Parsed YNull) = Inl TypeError
   \<and> validate (init path) (Parsed (YInt 7)) = Inl TypeError
   \<and> validate (init path) (Parsed (YStr ''agent'')) = Inl AttributeError
   \<and> validate (init path) (Parsed (YList [YStr ''kind'', YStr ''name''])) = Inl AttributeError"
  by (simp add: eval_defs)




text \<open>
  Claim C4. A \<^verbatim>\<open>kind\<close> that is present and outside the allowed set is not always
  reported: the rule tests \<^verbatim>\<open>if kind and kind not in self.VALID_KINDS\<close>, so the empty
  string and \<^verbatim>\<open>null\<close> pass it, and since the key is present the required-fields rule
  passes too. The document is declared valid with no error at all.
\<close>

theorem blank_kind_passes:
  "validate (init path) (Parsed (YMap [(''kind'', YStr ''''), (''name'', YStr ''x'')]))
     = Inr (True, (init path)\<lparr>warnings := [no_model_warning],
                   agent_data := YMap [(''kind'', YStr ''''), (''name'', YStr ''x'')]\<rparr>)
   \<and> validate (init path) (Parsed (YMap [(''kind'', YNull), (''name'', YStr ''x'')]))
     = Inr (True, (init path)\<lparr>warnings := [no_model_warning],
                   agent_data := YMap [(''kind'', YNull), (''name'', YStr ''x'')]\<rparr>)"
  by (simp add: eval_defs)

text \<open>
  Claim C5, a document whose \<^verbatim>\<open>model\<close> section is present and has no \<^verbatim>\<open>id\<close>, and
  for which no error is produced: the section is the empty mapping, which
  \<^verbatim>\<open>if not model\<close> treats as absent.
\<close>

theorem empty_model_counterexample:
  "has_key [(''model'', YMap [])] ''model''
   \<and> \<not> has_key [] ''id''
   \<and> validate_model ((init ''agent.yaml'')\<lparr>agent_data := YMap [(''model'', YMap [])]\<rparr>)
       = Inr ((init ''agent.yaml'')\<lparr>warnings := [no_model_warning],
                agent_data := YMap [(''model'', YMap [])]\<rparr>)
   \<and> errors ((init ''agent.yaml'')\<lparr>warnings := [no_model_warning],
                agent_data := YMap [(''model'', YMap [])]\<rparr>) = []"
  by (simp add: eval_defs)

text \<open>
  Claim C5. When the \<^verbatim>\<open>model\<close> section is absent or falsy, the model rule adds exactly
  the warning \<^verbatim>\<open>No 'model' section defined\<close> and no error. When it is a non-empty
  mapping without \<^verbatim>\<open>id\<close> (its \<^verbatim>\<open>connection\<close>, if not falsy, a mapping), the rule adds
  no warning and its first new error is \<^verbatim>\<open>Missing required field: 'model.id'\<close>.
\<close>

theorem model_section_rule:
  assumes "agent_data v = YMap m"
  shows "(\<not> has_key m ''model'' \<or> \<not> truthy (dict_get m ''model'') \<longrightarrow>
            (\<exists>v'. validate_model v = Inr v' \<and> errors v' = errors v
                 \<and> warnings v' = warnings v @ [''No 'model' section defined'']))
         \<and> (dict_get m ''model'' = YMap mm \<and> mm \<noteq> [] \<and> \<not> has_key mm ''id''
              \<and> model_ok (YMap mm) \<longrightarrow>
            (\<exists>v'. validate_model v = Inr v' \<and> warnings v' = warnings v
                 \<and> prefix (errors v @ [missing_field_msg ''model.id'']) (errors v')))"
proof (intro conjI impI)
  assume "\<not> has_key m ''model'' \<or> \<not> truthy (dict_get m ''model'')"
  then have "\<not> truthy (dict_get m ''model'')"
    by (auto simp: has_key_def dict_get_def)
  from validate_model_falsy [OF assms this]
  show "\<exists>v'. validate_model v = Inr v' \<and> errors v' = errors v
              \<and> warnings v' = warnings v @ [''No 'model' section defined'']"
    by (simp add: no_model_warning_def)
next
  assume a: "dict_get m ''model'' = YMap mm \<and> mm \<noteq> [] \<and> \<not> has_key mm ''id''
               \<and> model_ok (YMap mm)"
  then have mm: "dict_get m ''model'' = YMap mm" "mm \<noteq> []" and noid: "\<not> has_key mm ''id''"
    and ok: "model_ok (YMap mm)" by simp_all
  show "\<exists>v'. validate_model v = Inr v' \<and> warnings v' = warnings v
              \<and> prefix (errors v @ [missing_field_msg ''model.id'']) (errors v')"
  proof (cases "truthy (dict_get mm ''connection'')")
    case False
    from validate_model_no_connection [OF assms mm False] noid show ?thesis by simp
  next
    case True
    with ok mm obtain c where c: "dict_get mm ''connection'' = YMap c" "c \<noteq> []"
      by (cases "dict_get mm ''connection''") (simp_all add: model_ok_def)
    from validate_model_connection [OF assms mm c] noid show ?thesis
      by (auto simp: extends_def)
  qed
qed

text \<open>
  Claim C5, at a model section \<^verbatim>\<open>{name: gpt}\<close> without \<^verbatim>\<open>id\<close>, and at a document
  with no model section.
\<close>

theorem model_section_rule_witness:
  "agent_data ((init ''agent.yaml'')\<lparr>agent_data := YMap [(''model'', YMap [(''name'', YStr ''gpt'')])]\<rparr>)
     = YMap [(''model'', YMap [(''name'', YStr ''gpt'')])]
   \<and> dict_get [(''model'', YMap [(''name'', YStr ''gpt'')])] ''model'' = YMap [(''name'', YStr ''gpt'')]
   \<and> \<not> has_key [(''name'', YStr ''gpt'')] ''id''
   \<and> model_ok (YMap [(''name'', YStr ''gpt'')])
   \<and> (\<exists>v'. validate_model
              ((init ''agent.yaml'')\<lparr>agent_data := YMap [(''model'', YMap [(''name'', YStr ''gpt'')])]\<rparr>)
            = Inr v'
          \<and> prefix [missing_field_msg ''model.id''] (errors v'))
   \<and> \<not> has_key [(''kind'', YStr ''Agent'')] ''model''
   \<and> (\<exists>v'. validate_model ((init ''agent.yaml'')\<lparr>agent_data := YMap [(''kind'', YStr ''Agent'')]\<rparr>)
            = Inr v'
          \<and> errors v' = [] \<and> warnings v' = [''No 'model' section defined''])"
  using model_section_rule
    [of "(init ''agent.yaml'')\<lparr>agent_data := YMap [(''model'', YMap [(''name'', YStr ''gpt'')])]\<rparr>"
        "[(''model'', YMap [(''name'', YStr ''gpt'')])]" "[(''name'', YStr ''gpt'')]"]
    model_section_rule
    [of "(init ''agent.yaml'')\<lparr>agent_data := YMap [(''kind'', YStr ''Agent'')]\<rparr>"
        "[(''kind'', YStr ''Agent'')]" "[]"]
  by (auto simp: init_def dict_get_def has_key_def model_ok_def)

lemma key_msg_neq: "missing_field_msg ''model.id'' \<noteq> key_connection_msg"
  by (simp add: missing_field_msg_def key_connection_msg_def quoted_def)

text \<open>
  Claim C6. When \<^verbatim>\<open>model.connection.kind\<close> is \<^verbatim>\<open>key\<close>, the model rule returns and the
  errors it adds hold the message \<^verbatim>\<open>'key' connection requires 'apiKey' or 'key'\<close>
  exactly once when the connection has neither \<^verbatim>\<open>apiKey\<close> nor \<^verbatim>\<open>key\<close>, and not at
  all when it has either.
\<close>

theorem key_connection_credential:
  assumes "agent_data v = YMap m"
    and "dict_get m ''model'' = YMap mm"
    and "dict_get mm ''connection'' = YMap c"
    and "dict_get c ''kind'' = YStr ''key''"
  shows "\<exists>v' es. validate_model v = Inr v' \<and> errors v' = errors v @ es
           \<and> count_list es key_connection_msg
               = (if has_key c ''apiKey'' \<or> has_key c ''key'' then 0 else 1)"
proof -
  from assms(3) have mm: "mm \<noteq> []" by (rule has_key_not_Nil)
  from assms(4) have c: "c \<noteq> []" by (rule has_key_not_Nil')
  have run: "validate_model v =
      Inr (if \<not> has_key c ''apiKey'' \<and> \<not> has_key c ''key''
           then add_error (if \<not> has_key mm ''id''
                           then add_error v (missing_field_msg ''model.id'') else v)
                  key_connection_msg
           else (if \<not> has_key mm ''id''
                 then add_error v (missing_field_msg ''model.id'') else v))"
    using assms mm c
    by (simp add: validate_model_def Let_def in_strs_def VALID_CONNECTION_KINDS_def
        split del: if_split cong del: if_weak_cong)
  show ?thesis
  proof (cases "has_key mm ''id''")
    case True
    show ?thesis
    proof (cases "has_key c ''apiKey'' \<or> has_key c ''key''")
      case True
      with \<open>has_key mm ''id''\<close> run show ?thesis by auto
    next
      case False
      with \<open>has_key mm ''id''\<close> run
      have "validate_model v = Inr (add_error v key_connection_msg)" by simp
      moreover have "errors (add_error v key_connection_msg) = errors v @ [key_connection_msg]"
        by simp
      moreover have "count_list [key_connection_msg] key_connection_msg = 1" by simp
      ultimately show ?thesis using False by (metis (full_types))
    qed
  next
    case noid: False
    show ?thesis
    proof (cases "has_key c ''apiKey'' \<or> has_key c ''key''")
      case True
      with noid run
      have "validate_model v = Inr (add_error v (missing_field_msg ''model.id''))" by auto
      moreover have "errors (add_error v (missing_field_msg ''model.id''))
                       = errors v @ [missing_field_msg ''model.id'']" by simp
      moreover have "count_list [missing_field_msg ''model.id''] key_connection_msg = 0"
        using key_msg_neq by simp
      ultimately show ?thesis using True by (metis (full_types))
    next
      case False
      with noid run
      have "validate_model v =
              Inr (add_error (add_error v (missing_field_msg ''model.id'')) key_connection_msg)"
        by simp
      moreover have "errors (add_error (add_error v (missing_field_msg ''model.id''))
                               key_connection_msg)
                       = errors v @ [missing_field_msg ''model.id'', key_connection_msg]" by simp
      moreover have "count_list [missing_field_msg ''model.id'', key_connection_msg]
                       key_connection_msg = 1"
        using key_msg_neq by simp
      ultimately show ?thesis using False by (metis (full_types))
    qed
  qed
qed

text \<open>
  Claim C6, at a connection \<^verbatim>\<open>{kind: key}\<close>, and at the same connection with
  \<^verbatim>\<open>apiKey\<close> added.
\<close>

theorem key_connection_credential_witness:
  "dict_get [(''kind'', YStr ''key'')] ''kind'' = YStr ''key''
   \<and> (\<exists>v' es. validate_model
          ((init ''agent.yaml'')\<lparr>agent_data :=
             YMap [(''model'', YMap [(''connection'', YMap [(''kind'', YStr ''key'')])])]\<rparr>) = Inr v'
        \<and> errors v' = es \<and> count_list es key_connection_msg = 1)
   \<and> (\<exists>v' es. validate_model
          ((init ''agent.yaml'')\<lparr>agent_data :=
             YMap [(''model'', YMap [(''connection'',
               YMap [(''kind'', YStr ''key''), (''apiKey'', YStr ''s'')])])]\<rparr>) = Inr v'
        \<and> errors v' = es \<and> count_list es key_connection_msg = 0)"
  using key_connection_credential
    [of "(init ''agent.yaml'')\<lparr>agent_data :=
             YMap [(''model'', YMap [(''connection'', YMap [(''kind'', YStr ''key'')])])]\<rparr>"
        "[(''model'', YMap [(''connection'', YMap [(''kind'', YStr ''key'')])])]"
        "[(''connection'', YMap [(''kind'', YStr ''key'')])]"
        "[(''kind'', YStr ''key'')]"]
    key_connection_credential
    [of "(init ''agent.yaml'')\<lparr>agent_data :=
             YMap [(''model'', YMap [(''connection'',
               YMap [(''kind'', YStr ''key''), (''apiKey'', YStr ''s'')])])]\<rparr>"
        "[(''model'', YMap [(''connection'',
               YMap [(''kind'', YStr ''key''), (''apiKey'', YStr ''s'')])])]"
        "[(''connection'', YMap [(''kind'', YStr ''key''), (''apiKey'', YStr ''s'')])]"
        "[(''kind'', YStr ''key''), (''apiKey'', YStr ''s'')]"]
  by (simp add: init_def dict_get_def has_key_def)

subsection \<open>the errors of the tools rule\<close>



lemma add_error_more: "add_error v e = more_errors v [e]"
  by (simp add: more_errors_def add_error_def)


lemma more_errors_if:
  "(if b then more_errors v es else more_errors v fs) = more_errors v (if b then es else fs)"
  by simp

lemma errors_more_errors: "errors (more_errors v es) = errors v @ es"
  by (simp add: more_errors_def)















subsection \<open>the lines of the expression scan\<close>

lemma print_expressions_append:
  "print_expressions (xs @ ys) out = bind_r (print_expressions xs out) (print_expressions ys)"
proof (induction xs arbitrary: out)
  case Nil
  show ?case by simp
next
  case (Cons x xs)
  obtain path expr where x: "x = (path, expr)" by (cases x)
  show ?case
  proof (cases "startswith expr ''=Env.''")
    case True
    from env_var_name_eq [OF True] obtain name where "env_var_name expr = Inr name" by blast
    with True x Cons.IH show ?thesis by (simp add: Let_def)
  next
    case False
    with x Cons.IH show ?thesis by (simp add: Let_def)
  qed
qed

lemma print_expressions_lines:
  "\<exists>ls. print_expressions xs out = Inr (out @ ls)"
  using print_expressions_ok [of xs out] by (auto simp: prefix_def)

lemma print_expressions_at:
  assumes "startswith expr ''=Env.''" and "env_var_name expr = Inr name"
  shows "\<exists>ls1 ls2. print_expressions (before @ (path, expr) # rest) out
           = Inr (out @ ls1 @ [expression_line path expr, env_hint name] @ ls2)"
proof -
  from print_expressions_lines [of before out] obtain ls1 where
    b: "print_expressions before out = Inr (out @ ls1)" by blast
  from print_expressions_lines
    [of rest "((out @ ls1) @ [expression_line path expr]) @ [env_hint name]"]
  obtain ls2 where
    r: "print_expressions rest (((out @ ls1) @ [expression_line path expr]) @ [env_hint name])
          = Inr ((((out @ ls1) @ [expression_line path expr]) @ [env_hint name]) @ ls2)"
    by blast
  have "print_expressions (before @ (path, expr) # rest) out
          = Inr (out @ ls1 @ [expression_line path expr, env_hint name] @ ls2)"
    using assms b r by (simp add: print_expressions_append Let_def)
  then show ?thesis by blast
qed

lemma check_powerfx_expressions_at:
  assumes found: "find_expressions (agent_data v) [] = before @ (path, expr) # rest"
    and sw: "startswith expr ''=Env.''" and name: "env_var_name expr = Inr name"
  shows "\<exists>ls1 ls2. check_powerfx_expressions v =
           Inr (v\<lparr>stdout := stdout v @ [expressions_header] @ ls1
                    @ [expression_line path expr, env_hint name] @ ls2\<rparr>)"
proof -
  from print_expressions_at [OF sw name, of before path rest "stdout v @ [expressions_header]"]
  obtain ls1 ls2 where
    "print_expressions (before @ (path, expr) # rest) (stdout v @ [expressions_header])
       = Inr ((stdout v @ [expressions_header]) @ ls1
              @ [expression_line path expr, env_hint name] @ ls2)"
    by blast
  with found have "check_powerfx_expressions v =
           Inr (v\<lparr>stdout := stdout v @ [expressions_header] @ ls1
                    @ [expression_line path expr, env_hint name] @ ls2\<rparr>)"
    by (simp add: check_powerfx_expressions_def)
  then show ?thesis by blast
qed

lemma check_powerfx_expressions_one:
  assumes found: "find_expressions (agent_data v) [] = [(path, expr)]"
    and sw: "startswith expr ''=Env.''" and name: "env_var_name expr = Inr name"
  shows "check_powerfx_expressions v =
           Inr (v\<lparr>stdout := stdout v
                    @ [expressions_header, expression_line path expr, env_hint name]\<rparr>)"
  using assms by (simp add: check_powerfx_expressions_def Let_def)

subsection \<open>tools and expressions\<close>



text \<open>
  Claim C8, a document on which the scan prints a name that is not the substring up to the
  first \<^verbatim>\<open>)\<close> or \<^verbatim>\<open>,\<close>: for \<^verbatim>\<open>{a: "=Env.A=Env.B"}\<close> the method prints the hint for
  \<^verbatim>\<open>A\<close>, because the code first splits on \<^verbatim>\<open>=Env.\<close> and keeps the second part, where
  the specification's words give \<^verbatim>\<open>A=Env.B\<close>.
\<close>

theorem env_var_name_counterexample:
  "startswith ''=Env.A=Env.B'' ''=Env.''
   \<and> check_powerfx_expressions
         ((init ''agent.yaml'')\<lparr>agent_data := YMap [(''a'', YStr ''=Env.A=Env.B'')]\<rparr>)
       = Inr ((init ''agent.yaml'')\<lparr>agent_data := YMap [(''a'', YStr ''=Env.A=Env.B'')],
                stdout := [expressions_header, expression_line ''a'' ''=Env.A=Env.B'',
                           env_hint ''A'']\<rparr>)
   \<and> spec_env_var_name ''=Env.A=Env.B'' = ''A=Env.B''
   \<and> env_hint ''A'' \<noteq> env_hint (spec_env_var_name ''=Env.A=Env.B'')"
proof (intro conjI)
  show "startswith ''=Env.A=Env.B'' ''=Env.''"
    by (simp add: startswith_def)
  have "env_var_name ''=Env.A=Env.B'' = Inr ''A''"
    by (simp add: name_eval del: split_on.simps)
  then show "check_powerfx_expressions
         ((init ''agent.yaml'')\<lparr>agent_data := YMap [(''a'', YStr ''=Env.A=Env.B'')]\<rparr>)
       = Inr ((init ''agent.yaml'')\<lparr>agent_data := YMap [(''a'', YStr ''=Env.A=Env.B'')],
                stdout := [expressions_header, expression_line ''a'' ''=Env.A=Env.B'',
                           env_hint ''A'']\<rparr>)"
    by (subst check_powerfx_expressions_one [of _ "''a''" "''=Env.A=Env.B''" "''A''"])
      (simp_all add: startswith_def init_def)
  show sp: "spec_env_var_name ''=Env.A=Env.B'' = ''A=Env.B''"
    by (simp add: spec_env_var_name_def)
  show "env_hint ''A'' \<noteq> env_hint (spec_env_var_name ''=Env.A=Env.B'')"
    unfolding sp by (simp add: env_hint_def ustr_def)
qed

text \<open>
  Claim C8. On \<^verbatim>\<open>{a: {b: "=Env.FOO,bar)"}}\<close> the scan records exactly one expression,
  at path \<^verbatim>\<open>a.b\<close>, and the method prints the header, the line of that expression and the
  hint for the name \<^verbatim>\<open>FOO\<close>; on \<^verbatim>\<open>{a: "=Env.FOO"}\<close> it prints the hint for \<^verbatim>\<open>FOO\<close>
  too. In general, for every expression that the scan records in a document and that
  starts with \<^verbatim>\<open>=Env.\<close>, the method returns and prints the line of the expression followed
  by the hint for a name, which is what follows that prefix up to the first \<^verbatim>\<open>)\<close>, the
  first \<^verbatim>\<open>,\<close> or the next \<^verbatim>\<open>=Env.\<close>, whichever comes first; when \<^verbatim>\<open>=Env.\<close> does not
  occur again it is the name the specification words.
\<close>

theorem env_var_name_scan:
  "find_expressions (YMap [(''a'', YMap [(''b'', YStr ''=Env.FOO,bar)'')])]) []
     = [(''a.b'', ''=Env.FOO,bar)'')]
   \<and> check_powerfx_expressions
         (v\<lparr>agent_data := YMap [(''a'', YMap [(''b'', YStr ''=Env.FOO,bar)'')])]\<rparr>)
       = Inr (v\<lparr>agent_data := YMap [(''a'', YMap [(''b'', YStr ''=Env.FOO,bar)'')])],
                stdout := stdout v @ [expressions_header,
                            expression_line ''a.b'' ''=Env.FOO,bar)'', env_hint ''FOO'']\<rparr>)
   \<and> check_powerfx_expressions (v\<lparr>agent_data := YMap [(''a'', YStr ''=Env.FOO'')]\<rparr>)
       = Inr (v\<lparr>agent_data := YMap [(''a'', YStr ''=Env.FOO'')],
                stdout := stdout v @ [expressions_header,
                            expression_line ''a'' ''=Env.FOO'', env_hint ''FOO'']\<rparr>)
   \<and> (find_expressions (agent_data v) [] = before @ (path, expr) # rest
        \<and> startswith expr ''=Env.'' \<longrightarrow>
        (\<exists>name tail ls1 ls2.
           check_powerfx_expressions v =
             Inr (v\<lparr>stdout := stdout v @ [expressions_header] @ ls1
                      @ [expression_line path expr, env_hint name] @ ls2\<rparr>)
           \<and> drop (length ''=Env.'') expr = name @ tail
           \<and> CHR '')'' \<notin> set name \<and> CHR '','' \<notin> set name
           \<and> \<not> occurs_in ''=Env.'' name
           \<and> (tail = [] \<or> prefix '')'' tail \<or> prefix '','' tail \<or> prefix ''=Env.'' tail)))
   \<and> (find_expressions (agent_data v) [] = before @ (path, expr) # rest
        \<and> startswith expr ''=Env.''
        \<and> \<not> occurs_in ''=Env.'' (drop (length ''=Env.'') expr) \<longrightarrow>
        (\<exists>ls1 ls2.
           check_powerfx_expressions v =
             Inr (v\<lparr>stdout := stdout v @ [expressions_header] @ ls1
                      @ [expression_line path expr, env_hint (spec_env_var_name expr)]
                      @ ls2\<rparr>)))"
proof (intro conjI impI)
  show "find_expressions (YMap [(''a'', YMap [(''b'', YStr ''=Env.FOO,bar)'')])]) []
          = [(''a.b'', ''=Env.FOO,bar)'')]"
    by (simp add: startswith_def)
  have "env_var_name ''=Env.FOO,bar)'' = Inr ''FOO''"
    by (simp add: name_eval del: split_on.simps)
  then show "check_powerfx_expressions
         (v\<lparr>agent_data := YMap [(''a'', YMap [(''b'', YStr ''=Env.FOO,bar)'')])]\<rparr>)
       = Inr (v\<lparr>agent_data := YMap [(''a'', YMap [(''b'', YStr ''=Env.FOO,bar)'')])],
                stdout := stdout v @ [expressions_header,
                            expression_line ''a.b'' ''=Env.FOO,bar)'', env_hint ''FOO'']\<rparr>)"
    by (subst check_powerfx_expressions_one [of _ "''a.b''" "''=Env.FOO,bar)''" "''FOO''"])
      (simp_all add: startswith_def)
  have "env_var_name ''=Env.FOO'' = Inr ''FOO''"
    by (simp add: name_eval del: split_on.simps)
  then show "check_powerfx_expressions (v\<lparr>agent_data := YMap [(''a'', YStr ''=Env.FOO'')]\<rparr>)
       = Inr (v\<lparr>agent_data := YMap [(''a'', YStr ''=Env.FOO'')],
                stdout := stdout v @ [expressions_header,
                            expression_line ''a'' ''=Env.FOO'', env_hint ''FOO'']\<rparr>)"
    by (subst check_powerfx_expressions_one [of _ "''a''" "''=Env.FOO''" "''FOO''"])
      (simp_all add: startswith_def)
next
  assume a: "find_expressions (agent_data v) [] = before @ (path, expr) # rest
      \<and> startswith expr ''=Env.''"
  then have found: "find_expressions (agent_data v) [] = before @ (path, expr) # rest"
    and sw: "startswith expr ''=Env.''" by simp_all
  from env_var_name_decomp [OF sw] obtain name tail where
    n: "env_var_name expr = Inr name"
    and d: "drop (length ''=Env.'') expr = name @ tail
           \<and> CHR '')'' \<notin> set name \<and> CHR '','' \<notin> set name
           \<and> \<not> occurs_in ''=Env.'' name
           \<and> (tail = [] \<or> prefix '')'' tail \<or> prefix '','' tail \<or> prefix ''=Env.'' tail)"
    by blast
  from check_powerfx_expressions_at [OF found sw n] obtain ls1 ls2 where
    c: "check_powerfx_expressions v =
       Inr (v\<lparr>stdout := stdout v @ [expressions_header] @ ls1
                @ [expression_line path expr, env_hint name] @ ls2\<rparr>)"
    by blast
  show "\<exists>name tail ls1 ls2.
           check_powerfx_expressions v =
             Inr (v\<lparr>stdout := stdout v @ [expressions_header] @ ls1
                      @ [expression_line path expr, env_hint name] @ ls2\<rparr>)
           \<and> drop (length ''=Env.'') expr = name @ tail
           \<and> CHR '')'' \<notin> set name \<and> CHR '','' \<notin> set name
           \<and> \<not> occurs_in ''=Env.'' name
           \<and> (tail = [] \<or> prefix '')'' tail \<or> prefix '','' tail \<or> prefix ''=Env.'' tail)"
    by (rule exI [of _ name], rule exI [of _ tail], rule exI [of _ ls1], rule exI [of _ ls2])
      (rule conjI [OF c d])
next
  assume a: "find_expressions (agent_data v) [] = before @ (path, expr) # rest
      \<and> startswith expr ''=Env.''
      \<and> \<not> occurs_in ''=Env.'' (drop (length ''=Env.'') expr)"
  then have found: "find_expressions (agent_data v) [] = before @ (path, expr) # rest"
    and sw: "startswith expr ''=Env.''"
    and no: "\<not> occurs_in ''=Env.'' (drop (length ''=Env.'') expr)" by simp_all
  from check_powerfx_expressions_at [OF found sw env_var_name_spec [OF sw no]]
  show "\<exists>ls1 ls2.
           check_powerfx_expressions v =
             Inr (v\<lparr>stdout := stdout v @ [expressions_header] @ ls1
                      @ [expression_line path expr, env_hint (spec_env_var_name expr)]
                      @ ls2\<rparr>)" .
qed

text \<open>
  Claim C8, at the document \<^verbatim>\<open>{a: "=Env.HOME,x)"}\<close>: the method prints the hint for
  \<^verbatim>\<open>HOME\<close>.
\<close>

theorem env_var_name_scan_witness:
  "find_expressions (agent_data
       ((init ''agent.yaml'')\<lparr>agent_data := YMap [(''a'', YStr ''=Env.HOME,x)'')]\<rparr>)) []
     = [] @ (''a'', ''=Env.HOME,x)'') # []
   \<and> startswith ''=Env.HOME,x)'' ''=Env.''
   \<and> \<not> occurs_in ''=Env.'' (drop (length ''=Env.'') ''=Env.HOME,x)'')
   \<and> spec_env_var_name ''=Env.HOME,x)'' = ''HOME''
   \<and> (\<exists>ls1 ls2.
         check_powerfx_expressions
           ((init ''agent.yaml'')\<lparr>agent_data := YMap [(''a'', YStr ''=Env.HOME,x)'')]\<rparr>)
         = Inr ((init ''agent.yaml'')\<lparr>agent_data := YMap [(''a'', YStr ''=Env.HOME,x)'')],
                  stdout := [expressions_header] @ ls1
                    @ [expression_line ''a'' ''=Env.HOME,x)'', env_hint ''HOME''] @ ls2\<rparr>))"
proof -
  let ?v = "(init ''agent.yaml'')\<lparr>agent_data := YMap [(''a'', YStr ''=Env.HOME,x)'')]\<rparr>"
  have found: "find_expressions (agent_data ?v) [] = [] @ (''a'', ''=Env.HOME,x)'') # []"
    by (simp add: startswith_def)
  have sw: "startswith ''=Env.HOME,x)'' ''=Env.''"
    by (simp add: startswith_def)
  have no: "\<not> occurs_in ''=Env.'' (drop (length ''=Env.'') ''=Env.HOME,x)'')"
    by simp
  have sp: "spec_env_var_name ''=Env.HOME,x)'' = ''HOME''"
    by (simp add: spec_env_var_name_def)
  note scan = env_var_name_scan
    [of ?v "[]" "''a''" "''=Env.HOME,x)''" "[]",
      THEN conjunct2, THEN conjunct2, THEN conjunct2, THEN conjunct2, THEN mp,
      OF conjI [OF found conjI [OF sw no]]]
  have out: "\<exists>ls1 ls2.
         check_powerfx_expressions ?v
         = Inr ((init ''agent.yaml'')\<lparr>agent_data := YMap [(''a'', YStr ''=Env.HOME,x)'')],
                  stdout := [expressions_header] @ ls1
                    @ [expression_line ''a'' ''=Env.HOME,x)'', env_hint ''HOME''] @ ls2\<rparr>)"
    using scan unfolding sp by (simp add: init_def)
  from found sw no sp out show ?thesis by (intro conjI)
qed

text \<open>
  Claim C9. The minimal document, whose root holds exactly \<^verbatim>\<open>kind: Agent\<close> and
  \<^verbatim>\<open>name: x\<close> (in either order), is valid: the run returns true, adds no error, leaves
  the one warning \<^verbatim>\<open>No 'model' section defined\<close> and the scan finds no expression.
\<close>

theorem minimal_document_valid:
  "validate (init path) (Parsed (YMap [(''kind'', YStr ''Agent''), (''name'', YStr ''x'')]))
     = Inr (True, (init path)\<lparr>warnings := [''No 'model' section defined''],
                   agent_data := YMap [(''kind'', YStr ''Agent''), (''name'', YStr ''x'')]\<rparr>)
   \<and> errors (init path) = []
   \<and> find_expressions (YMap [(''kind'', YStr ''Agent''), (''name'', YStr ''x'')]) [] = []
   \<and> validate (init path) (Parsed (YMap [(''name'', YStr ''x''), (''kind'', YStr ''Agent'')]))
     = Inr (True, (init path)\<lparr>warnings := [''No 'model' section defined''],
                   agent_data := YMap [(''name'', YStr ''x''), (''kind'', YStr ''Agent'')]\<rparr>)
   \<and> find_expressions (YMap [(''name'', YStr ''x''), (''kind'', YStr ''Agent'')]) [] = []"
  by (simp add: eval_defs no_model_warning_def)



end
